theory Spec2Isabelle
  imports Main "HOL-Library.Sublist"
begin

section \<open>JavaScript strings\<close>

text \<open>
  A JavaScript string is modelled as a \<^typ>\<open>string\<close>, one \<^typ>\<open>char\<close> per code unit,
  for the code units below 256. \<open>toLowerCase\<close>, \<open>toUpperCase\<close> and \<open>trim\<close> are the ones of
  JavaScript on that range: the letters are the ASCII letters and the letters from
  \<open>0xC0\<close> to \<open>0xFE\<close> (without the signs \<open>0xD7\<close> and \<open>0xF7\<close>), and the upper case of
  \<open>0xDF\<close> is \<open>SS\<close>. The upper-case forms of \<open>0xB5\<close> and \<open>0xFF\<close> are code units above
  255, which a \<^typ>\<open>char\<close> cannot hold: these two characters are left as they are.
\<close>

definition lower_letters :: string where
  "lower_letters = ''abcdefghijklmnopqrstuvwxyz'' @
     [CHR 0xE0, CHR 0xE1, CHR 0xE2, CHR 0xE3, CHR 0xE4, CHR 0xE5,
      CHR 0xE6, CHR 0xE7, CHR 0xE8, CHR 0xE9, CHR 0xEA, CHR 0xEB,
      CHR 0xEC, CHR 0xED, CHR 0xEE, CHR 0xEF, CHR 0xF0, CHR 0xF1,
      CHR 0xF2, CHR 0xF3, CHR 0xF4, CHR 0xF5, CHR 0xF6, CHR 0xF8,
      CHR 0xF9, CHR 0xFA, CHR 0xFB, CHR 0xFC, CHR 0xFD, CHR 0xFE]"

definition upper_letters :: string where
  "upper_letters = ''ABCDEFGHIJKLMNOPQRSTUVWXYZ'' @
     [CHR 0xC0, CHR 0xC1, CHR 0xC2, CHR 0xC3, CHR 0xC4, CHR 0xC5,
      CHR 0xC6, CHR 0xC7, CHR 0xC8, CHR 0xC9, CHR 0xCA, CHR 0xCB,
      CHR 0xCC, CHR 0xCD, CHR 0xCE, CHR 0xCF, CHR 0xD0, CHR 0xD1,
      CHR 0xD2, CHR 0xD3, CHR 0xD4, CHR 0xD5, CHR 0xD6, CHR 0xD8,
      CHR 0xD9, CHR 0xDA, CHR 0xDB, CHR 0xDC, CHR 0xDD, CHR 0xDE]"

text \<open>The upper case of one character is a string, since it can be two characters.\<close>

definition toUpperCase_char :: "char \<Rightarrow> string" where
  "toUpperCase_char c =
     (if c = CHR 0xDF then ''SS''
      else case map_of (zip lower_letters upper_letters) c of
             Some u \<Rightarrow> [u]
           | None \<Rightarrow> [c])"

definition toLowerCase_char :: "char \<Rightarrow> char" where
  "toLowerCase_char c =
     (case map_of (zip upper_letters lower_letters) c of Some l \<Rightarrow> l | None \<Rightarrow> c)"

definition toUpperCase :: "string \<Rightarrow> string" where
  "toUpperCase s = concat (map toUpperCase_char s)"

definition toLowerCase :: "string \<Rightarrow> string" where
  "toLowerCase s = map toLowerCase_char s"

text \<open>The characters \<open>String.prototype.trim\<close> removes: tab, line feed, vertical tab,
  form feed, carriage return, space and no-break space.\<close>

definition white_space :: string where
  "white_space =
     [CHR 0x09, CHR 0x0A, CHR 0x0B, CHR 0x0C, CHR 0x0D, CHR '' '', CHR 0xA0]"

definition trim :: "string \<Rightarrow> string" where
  "trim s = rev (dropWhile (\<lambda>c. c \<in> set white_space)
                  (rev (dropWhile (\<lambda>c. c \<in> set white_space) s)))"

definition startsWith :: "string \<Rightarrow> string \<Rightarrow> bool" where
  "startsWith s p = (take (length p) s = p)"

definition endsWith :: "string \<Rightarrow> string \<Rightarrow> bool" where
  "endsWith s p = (length p \<le> length s \<and> drop (length s - length p) s = p)"

text \<open>\<open>s.charAt(0)\<close> is the empty string when \<open>s\<close> is empty.\<close>

definition charAt0 :: "string \<Rightarrow> string" where
  "charAt0 s = (case s of [] \<Rightarrow> [] | c # _ \<Rightarrow> [c])"

text \<open>\<open>s.slice(1)\<close> and \<open>s.slice(0, -1)\<close>.\<close>

definition slice_1 :: "string \<Rightarrow> string" where
  "slice_1 s = drop 1 s"

definition slice_0_minus1 :: "string \<Rightarrow> string" where
  "slice_0_minus1 s = take (length s - 1) s"

text \<open>\<open>row.split('=')[1]\<close>: the piece between the first and the second \<open>=\<close>;
  \<open>undefined\<close> (\<open>None\<close>) when the row has no \<open>=\<close>.\<close>

definition split_eq_1 :: "string \<Rightarrow> string option" where
  "split_eq_1 row =
     (case dropWhile (\<lambda>c. c \<noteq> CHR ''='') row of
        [] \<Rightarrow> None
      | _ # rest \<Rightarrow> Some (takeWhile (\<lambda>c. c \<noteq> CHR ''='') rest))"

text \<open>\<open>String(n)\<close> for a natural number: its decimal digits.\<close>

fun String_nat :: "nat \<Rightarrow> string" where
  "String_nat n =
     (if n < 10 then [''0123456789'' ! n]
      else String_nat (n div 10) @ [''0123456789'' ! (n mod 10)])"

declare String_nat.simps [simp del]

section \<open>Tabs and the command table\<close>

record tab =
  id' :: string
  title :: string
  content :: string

definition DICTATION_COMMANDS :: "(string \<times> string) list" where
  "DICTATION_COMMANDS =
     [(''period'', ''.''),
      (''comma'', '',''),
      (''question mark'', ''?''),
      (''colon'', '':''),
      (''semi colon'', '';''),
      (''semicolon'', '';''),
      (''exclamation mark'', ''!''),
      (''exclamation point'', ''!''),
      (''dash'', ''-''),
      (''hyphen'', ''-''),
      (''new line'', [CHR 0x0A]),
      (''new paragraph'', [CHR 0x0A, CHR 0x0A]),
      (''open parentheses'', ''(''),
      (''close parentheses'', '')''),
      (''smiley'', '':-)''),
      (''smiley face'', '':-)''),
      (''sad face'', '':-('')]"

text \<open>
  \<open>DICTATION_COMMANDS\<close> is an object literal, so \<open>DICTATION_COMMANDS[key]\<close> is a property
  read: an own property gives its string, a key that is no own property is looked up on
  \<open>Object.prototype\<close>, whose properties are functions (and \<open>__proto__\<close>, an object), and
  any other key gives \<open>undefined\<close>.
\<close>

datatype js_value = JString string | JObject | JUndefined

definition Object_prototype :: "string list" where
  "Object_prototype =
     [''constructor'', ''__defineGetter__'', ''__defineSetter__'', ''hasOwnProperty'',
      ''__lookupGetter__'', ''__lookupSetter__'', ''isPrototypeOf'',
      ''propertyIsEnumerable'', ''toString'', ''valueOf'', ''__proto__'',
      ''toLocaleString'']"

definition get_command :: "string \<Rightarrow> js_value" where
  "get_command key =
     (case map_of DICTATION_COMMANDS key of
        Some s \<Rightarrow> JString s
      | None \<Rightarrow> if key \<in> set Object_prototype then JObject else JUndefined)"

text \<open>The test \<open>if (command)\<close>.\<close>

fun truthy :: "js_value \<Rightarrow> bool" where
  "truthy (JString s) = (s \<noteq> [])"
| "truthy JObject = True"
| "truthy JUndefined = False"

datatype error = TypeError

section \<open>The utterance handler\<close>

text \<open>
  Lines 132 to 143, the new content of the active tab for a command. Calling
  \<open>command.startsWith\<close> on a value that is no string throws a \<open>TypeError\<close>.
\<close>

fun command_newContent :: "js_value \<Rightarrow> string \<Rightarrow> error + string" where
  "command_newContent (JString command) newContent =
     Inr (if startsWith command [CHR 0x0A] \<and> newContent \<noteq> [] \<and> \<not> endsWith newContent '' ''
          then newContent @ '' '' @ command
          else if newContent \<noteq> [] \<and> endsWith newContent '' '' \<and> command \<noteq> '' ''
          then slice_0_minus1 newContent @ command @ '' ''
          else newContent @ command @ '' '')"
| "command_newContent JObject newContent = Inl TypeError"
| "command_newContent JUndefined newContent = Inl TypeError"

text \<open>Lines 150 to 158: the dictated text, capitalised at the start of a sentence. The
  first argument is \<open>currentTab.content\<close>.\<close>

definition processedText :: "string \<Rightarrow> string \<Rightarrow> string" where
  "processedText currentContent transcriptText =
     (if endsWith currentContent ''. '' \<or> endsWith currentContent ''! ''
         \<or> endsWith currentContent ''? '' \<or> currentContent = []
      then toUpperCase (charAt0 transcriptText) @ slice_1 transcriptText
      else transcriptText)"

text \<open>Line 162: the new content of the active tab for dictated text.\<close>

definition dictation_newContent :: "string \<Rightarrow> string \<Rightarrow> string" where
  "dictation_newContent c text =
     c @ (if c \<noteq> [] \<and> \<not> endsWith c '' '' then '' '' else []) @ text @ '' ''"

text \<open>\<open>prevTabs.map(f)\<close> for a callback that may throw.\<close>

fun map_tabs :: "(tab \<Rightarrow> error + tab) \<Rightarrow> tab list \<Rightarrow> error + tab list" where
  "map_tabs f [] = Inr []"
| "map_tabs f (t # ts) =
     (case f t of
        Inl e \<Rightarrow> Inl e
      | Inr t' \<Rightarrow> (case map_tabs f ts of Inl e \<Rightarrow> Inl e | Inr ts' \<Rightarrow> Inr (t' # ts')))"

text \<open>
  \<open>recognition.onresult\<close>, lines 119 to 167, as a function of the \<open>tabs\<close> array the
  handler closes over (\<open>captured\<close>), the value of \<open>activeTabRef.current\<close> when the event
  is handled (\<open>current\<close>), the transcript of the last result, and the state \<open>prevTabs\<close>
  that \<open>setTabs\<close> passes to the updater. The result is the next \<open>tabs\<close> state; the
  early return of line 125 leaves it as it is.
\<close>

definition onresult ::
  "tab list \<Rightarrow> string option \<Rightarrow> string \<Rightarrow> tab list \<Rightarrow> error + tab list" where
  "onresult captured current transcript prevTabs =
     (let transcriptText = trim (toLowerCase transcript) in
      case find (\<lambda>tab. Some (id' tab) = current) captured of
        None \<Rightarrow> Inr prevTabs
      | Some currentTab \<Rightarrow>
          (let command = get_command transcriptText in
           if truthy command
           then map_tabs (\<lambda>tab.
                  if Some (id' tab) = current
                  then (case command_newContent command (content tab) of
                          Inl e \<Rightarrow> Inl e
                        | Inr newContent \<Rightarrow> Inr (tab\<lparr>content := newContent\<rparr>))
                  else Inr tab) prevTabs
           else (let processed = processedText (content currentTab) transcriptText in
                 Inr (map (\<lambda>tab.
                   if Some (id' tab) = current
                   then tab\<lparr>content := dictation_newContent (content tab) processed\<rparr>
                   else tab) prevTabs))))"

section \<open>The component state\<close>

text \<open>
  The state of \<open>App\<close>. \<open>activeTabId\<close> and \<open>activeTabRef\<close> are \<open>None\<close> when they hold
  \<open>undefined\<close>, which \<open>closeTab\<close> can store. \<open>hideTimeouts\<close> are the times at which the
  pending \<open>setTimeout\<close> callbacks of line 92 are due. Times are milliseconds, as
  \<open>Date.now()\<close> gives them.
\<close>

record app =
  tabs :: "tab list"
  activeTabId :: "string option"
  activeTabRef :: "string option"
  isEditingTitle :: "string option"
  editingTitleValue :: string
  isListening :: bool
  lastSpeechDetected :: int
  showNoSpeechDetected :: bool
  hideTimeouts :: "int list"

subsection \<open>Initial state\<close>

text \<open>
  The initialisers of lines 45 to 64 read \<open>document.cookie.split('; ')\<close>, here the list
  \<open>cookie\<close> of rows. \<open>parse\<close> stands for \<open>JSON.parse\<close> after \<open>decodeURIComponent\<close>, \<open>None\<close>
  when either throws.
\<close>

definition default_tabs :: "tab list" where
  "default_tabs = [\<lparr>id' = ''1'', title = ''Untitled 1'', content = []\<rparr>]"

definition initial_tabs :: "(string \<Rightarrow> tab list option) \<Rightarrow> string list \<Rightarrow> tab list" where
  "initial_tabs parse cookie =
     (case find (\<lambda>row. startsWith row ''tabs='') cookie of
        Some savedTabs \<Rightarrow>
          (case split_eq_1 savedTabs of
             Some v \<Rightarrow> (case parse v of Some ts \<Rightarrow> ts | None \<Rightarrow> default_tabs)
           | None \<Rightarrow> default_tabs)
      | None \<Rightarrow> default_tabs)"

definition initial_activeTabId :: "string list \<Rightarrow> string option" where
  "initial_activeTabId cookie =
     (case find (\<lambda>row. startsWith row ''activeTab='') cookie of
        Some savedActiveTab \<Rightarrow> split_eq_1 savedActiveTab
      | None \<Rightarrow> Some ''1'')"

text \<open>The effect of lines 67 to 69, run after every render that changed
  \<open>activeTabId\<close>, and after the first one.\<close>

definition sync_activeTabRef :: "app \<Rightarrow> app" where
  "sync_activeTabRef s = s\<lparr>activeTabRef := activeTabId s\<rparr>"

definition initial_app :: "(string \<Rightarrow> tab list option) \<Rightarrow> string list \<Rightarrow> int \<Rightarrow> app" where
  "initial_app parse cookie now =
     sync_activeTabRef
       \<lparr>tabs = initial_tabs parse cookie,
        activeTabId = initial_activeTabId cookie,
        activeTabRef = Some ''1'',
        isEditingTitle = None,
        editingTitleValue = [],
        isListening = False,
        lastSpeechDetected = now,
        showNoSpeechDetected = False,
        hideTimeouts = []\<rparr>"

text \<open>\<open>tabs[i]\<close> is \<open>undefined\<close> outside the array; \<open>x?.id\<close>; \<open>a || b\<close> on values that
  are a string or \<open>undefined\<close>; \<open>findIndex\<close> gives \<open>-1\<close> when nothing matches.\<close>

definition at_index :: "'a list \<Rightarrow> int \<Rightarrow> 'a option" where
  "at_index xs i = (if 0 \<le> i \<and> i < int (length xs) then Some (xs ! nat i) else None)"

definition optional_id :: "tab option \<Rightarrow> string option" where
  "optional_id t = map_option id' t"

definition js_or :: "string option \<Rightarrow> string option \<Rightarrow> string option" where
  "js_or a b = (case a of Some s \<Rightarrow> if s \<noteq> [] then a else b | None \<Rightarrow> b)"

fun findIndex :: "('a \<Rightarrow> bool) \<Rightarrow> 'a list \<Rightarrow> int" where
  "findIndex P [] = - 1"
| "findIndex P (x # xs) =
     (if P x then 0 else (let i = findIndex P xs in if i < 0 then - 1 else i + 1))"

text \<open>Line 74.\<close>

definition activeTab :: "app \<Rightarrow> tab option" where
  "activeTab s =
     (case find (\<lambda>tab. Some (id' tab) = activeTabId s) (tabs s) of
        Some t \<Rightarrow> Some t
      | None \<Rightarrow> at_index (tabs s) 0)"

subsection \<open>Operations on the tabs\<close>

datatype content_arg = Literal string | Updater "string \<Rightarrow> string"

definition updateActiveTabContent :: "content_arg \<Rightarrow> app \<Rightarrow> app" where
  "updateActiveTabContent newContent s =
     s\<lparr>tabs := map (\<lambda>tab.
          if Some (id' tab) = activeTabId s
          then tab\<lparr>content := (case newContent of
                                  Updater f \<Rightarrow> f (content tab)
                                | Literal v \<Rightarrow> v)\<rparr>
          else tab) (tabs s)\<rparr>"

definition handleTextChange :: "string \<Rightarrow> app \<Rightarrow> app" where
  "handleTextChange v s = updateActiveTabContent (Literal v) s"

text \<open>\<open>addNewTab\<close>, with the value of \<open>Date.now()\<close>.\<close>

definition addNewTab :: "nat \<Rightarrow> app \<Rightarrow> app" where
  "addNewTab now s =
     (let newTabId = String_nat now;
          newTabNumber = length (tabs s) + 1;
          newTab = \<lparr>id' = newTabId,
                    title = ''Untitled '' @ String_nat newTabNumber,
                    content = []\<rparr>
      in s\<lparr>tabs := tabs s @ [newTab],
           activeTabId := Some newTabId,
           isEditingTitle := Some newTabId,
           editingTitleValue := ''Untitled '' @ String_nat newTabNumber\<rparr>)"

definition closeTab :: "string \<Rightarrow> app \<Rightarrow> app" where
  "closeTab tabId s =
     (if length (tabs s) = 1 then s
      else
        (let s' = s\<lparr>tabs := filter (\<lambda>tab. id' tab \<noteq> tabId) (tabs s)\<rparr> in
         if activeTabId s = Some tabId
         then (let tabIndex = findIndex (\<lambda>tab. id' tab = tabId) (tabs s);
                   nextTabId = js_or (optional_id (at_index (tabs s) (tabIndex - 1)))
                                     (optional_id (at_index (tabs s) (tabIndex + 1)))
               in s'\<lparr>activeTabId := nextTabId\<rparr>)
         else s'))"

definition startEditingTitle :: "string \<Rightarrow> string \<Rightarrow> app \<Rightarrow> app" where
  "startEditingTitle tabId currentTitle s =
     s\<lparr>isEditingTitle := Some tabId, editingTitleValue := currentTitle\<rparr>"

definition handleTitleChange :: "string \<Rightarrow> app \<Rightarrow> app" where
  "handleTitleChange v s = s\<lparr>editingTitleValue := v\<rparr>"

text \<open>\<open>if (isEditingTitle)\<close> is false for \<open>null\<close> and for the empty string.\<close>

definition finishEditingTitle :: "app \<Rightarrow> app" where
  "finishEditingTitle s =
     (let s' = (case isEditingTitle s of
                  None \<Rightarrow> s
                | Some editing \<Rightarrow>
                    if editing = [] then s
                    else s\<lparr>tabs := map (\<lambda>tab.
                           if id' tab = editing
                           then tab\<lparr>title := (if trim (editingTitleValue s) \<noteq> []
                                               then trim (editingTitleValue s)
                                               else ''Untitled'')\<rparr>
                           else tab) (tabs s)\<rparr>)
      in s'\<lparr>isEditingTitle := None, editingTitleValue := []\<rparr>)"

definition handleTabClick :: "string \<Rightarrow> app \<Rightarrow> app" where
  "handleTabClick tabId s =
     (let s' = s\<lparr>activeTabId := Some tabId\<rparr> in
      if Some tabId = activeTabId s
      then (case find (\<lambda>t. id' t = tabId) (tabs s) of
              Some t \<Rightarrow> startEditingTitle tabId (title t) s'
            | None \<Rightarrow> s')
      else s')"

subsection \<open>Listening and the silence watchdog\<close>




text \<open>\<open>toggleListening\<close> with a recognition object present, followed by the effect of
  lines 85 to 109.\<close>

definition toggleListening :: "int \<Rightarrow> app \<Rightarrow> app" where
  "toggleListening now s =
     (let s' = (if isListening s then s else s\<lparr>lastSpeechDetected := now\<rparr>)
      in s'\<lparr>isListening := \<not> isListening s, showNoSpeechDetected := False\<rparr>)"

text \<open>
  The handler on the component state, at time \<open>now\<close>: lines 119 to 170. After the early
  return of line 125 nothing has changed. Otherwise \<open>setTabs\<close> enqueues the updater, lines
  169 and 170 run, and the updater runs at the next render. When it throws there, nothing
  catches the error and the component is unmounted: the result is \<open>Inl\<close>, with the error
  and the state the handler left.
\<close>

definition recognition_onresult ::
  "tab list \<Rightarrow> int \<Rightarrow> string \<Rightarrow> app \<Rightarrow> (error \<times> app) + app" where
  "recognition_onresult captured now transcript s =
     (case find (\<lambda>tab. Some (id' tab) = activeTabRef s) captured of
        None \<Rightarrow> Inr s
      | Some currentTab \<Rightarrow>
          (let s' = s\<lparr>lastSpeechDetected := now, showNoSpeechDetected := False\<rparr> in
           case onresult captured (activeTabRef s) transcript (tabs s) of
             Inl e \<Rightarrow> Inl (e, s')
           | Inr tabs' \<Rightarrow> Inr (s'\<lparr>tabs := tabs'\<rparr>)))"

text \<open>
  The utterances of one listening session. The effect of lines 111 to 182 creates a
  recognition object whose handler closes over the \<open>tabs\<close> of that render, and
  \<open>toggleListening\<close> starts the object that is in the \<open>recognition\<close> state when the user
  clicks. The effect has no cleanup and runs again on every change of \<open>tabs\<close>; each run
  creates another object, which is stored but not started. So all events of the session
  come from the object that was started and go to its handler, with the \<open>tabs\<close> it has
  closed over (\<open>captured\<close>). Each utterance is a time and a transcript.
\<close>

fun deliver :: "tab list \<Rightarrow> (int \<times> string) list \<Rightarrow> app \<Rightarrow> (error \<times> app) + app" where
  "deliver captured [] s = Inr s"
| "deliver captured ((now, transcript) # utterances) s =
     (case recognition_onresult captured now transcript s of
        Inl e \<Rightarrow> Inl e
      | Inr s' \<Rightarrow> deliver captured utterances s')"




subsection \<open>The invariant of the tabs\<close>

text \<open>
  The state the operations maintain: the ids of the tabs are distinct and non-empty, and
  \<open>activeTabId\<close> is the id of one of the tabs.
\<close>

definition store_invariant :: "app \<Rightarrow> bool" where
  "store_invariant s =
     (distinct (map id' (tabs s)) \<and> [] \<notin> set (map id' (tabs s)) \<and>
      list_ex (\<lambda>tab. activeTabId s = Some (id' tab)) (tabs s))"

section \<open>Facts about strings and the command table\<close>

lemma endsWith_suffix: "endsWith s p = suffix p s"
  unfolding endsWith_def suffix_def
  by (auto simp: append_eq_conv_conj) (metis append_take_drop_id)

lemma endsWith_space: "endsWith s '' '' = (s \<noteq> [] \<and> last s = CHR '' '')"
  unfolding endsWith_suffix
  by (cases s rule: rev_cases) (auto simp: suffix_def)

lemma slice_0_minus1_snoc: "slice_0_minus1 (body @ [x]) = body"
  by (simp add: slice_0_minus1_def)

lemma command_values:
  assumes "map_of DICTATION_COMMANDS k = Some S"
  shows "S \<noteq> []" and "CHR '' '' \<notin> set S" and "S \<noteq> '' ''"
  using assms by (auto simp: DICTATION_COMMANDS_def split: if_splits)

lemma line_break_values:
  assumes "map_of DICTATION_COMMANDS k = Some S"
  shows "startsWith S [CHR 0x0A] = (k = ''new line'' \<or> k = ''new paragraph'')"
    and "startsWith S [CHR 0x0A] \<Longrightarrow> last S = CHR 0x0A"
  using assms by (auto simp: DICTATION_COMMANDS_def startsWith_def split: if_splits)

lemma no_double_space_after:
  assumes "S \<noteq> []" and "CHR '' '' \<notin> set S" and "length kept \<le> i + 1"
    and "i + 1 < length (kept @ S @ '' '')"
  shows "\<not> ((kept @ S @ '' '') ! i = CHR '' '' \<and> (kept @ S @ '' '') ! (i + 1) = CHR '' '')"
proof (cases "i < length kept")
  case True
  with assms(3) have "i + 1 = length kept" by simp
  then have "(kept @ S @ '' '') ! (i + 1) = S ! 0"
    using assms(1) by (simp add: nth_append)
  moreover have "S ! 0 \<in> set S" using assms(1) by simp
  ultimately show ?thesis using assms(2) by metis
next
  case False
  then have "i - length kept < length S" using assms(4) by simp
  then have "(S @ '' '') ! (i - length kept) \<in> set S"
    by (simp add: nth_append)
  moreover have "(kept @ S @ '' '') ! i = (S @ '' '') ! (i - length kept)"
    using False by (simp add: nth_append)
  ultimately show ?thesis using assms(2) by metis
qed

text \<open>
  Claim C3. For a command of the table whose substitution \<open>S\<close> does not begin with a
  line break, the new content is \<open>kept @ S\<close> followed by exactly one space, where \<open>kept\<close>
  is the old content without its trailing space when the old content is non-empty and
  ends with a space, and the old content itself otherwise. From the last character of
  \<open>kept\<close> onwards no two neighbouring characters of the result are both spaces. The
  content \<open>Hello world \<close> and the command \<open>period\<close> give \<open>Hello world. \<close>.
\<close>

theorem punctuation_command_attaches:
  assumes "map_of DICTATION_COMMANDS phrase = Some S"
    and "\<not> startsWith S [CHR 0x0A]"
  shows "get_command phrase = JString S \<and> truthy (get_command phrase) \<and>
    (\<exists>kept r. command_newContent (get_command phrase) c = Inr r \<and> r = kept @ S @ '' '' \<and>
       (if c \<noteq> [] \<and> suffix '' '' c then c = kept @ '' '' else kept = c) \<and>
       (\<forall>i. length kept \<le> i + 1 \<and> i + 1 < length r \<longrightarrow>
            \<not> (r ! i = CHR '' '' \<and> r ! (i + 1) = CHR '' '')))
    \<and> onresult
         [\<lparr>id' = ''1'', title = ''Untitled 1'', content = ''Hello world ''\<rparr>]
         (Some ''1'') ''period''
         [\<lparr>id' = ''1'', title = ''Untitled 1'', content = ''Hello world ''\<rparr>]
       = Inr [\<lparr>id' = ''1'', title = ''Untitled 1'', content = ''Hello world. ''\<rparr>]"
proof -
  note v = command_values [OF assms(1)]
  have g: "get_command phrase = JString S"
    using assms(1) by (simp add: get_command_def)
  have t: "truthy (get_command phrase)"
    using g v(1) by simp
  have m: "\<exists>kept r. command_newContent (get_command phrase) c = Inr r \<and> r = kept @ S @ '' '' \<and>
       (if c \<noteq> [] \<and> suffix '' '' c then c = kept @ '' '' else kept = c) \<and>
       (\<forall>i. length kept \<le> i + 1 \<and> i + 1 < length r \<longrightarrow>
            \<not> (r ! i = CHR '' '' \<and> r ! (i + 1) = CHR '' ''))"
  proof (cases "c \<noteq> [] \<and> suffix '' '' c")
    case True
    then obtain body where c: "c = body @ '' ''"
      by (auto simp: suffix_def)
    have "command_newContent (get_command phrase) c = Inr (body @ S @ '' '')"
      using assms(2) v(3) by (simp add: g c endsWith_space slice_0_minus1_snoc)
    moreover have "\<forall>i. length body \<le> i + 1 \<and> i + 1 < length (body @ S @ '' '') \<longrightarrow>
            \<not> ((body @ S @ '' '') ! i = CHR '' '' \<and> (body @ S @ '' '') ! (i + 1) = CHR '' '')"
      using no_double_space_after [OF v(1) v(2)] by blast
    ultimately show ?thesis using True c by auto
  next
    case False
    then have "command_newContent (get_command phrase) c = Inr (c @ S @ '' '')"
      using assms(2) by (auto simp: g endsWith_suffix)
    moreover have "\<forall>i. length c \<le> i + 1 \<and> i + 1 < length (c @ S @ '' '') \<longrightarrow>
            \<not> ((c @ S @ '' '') ! i = CHR '' '' \<and> (c @ S @ '' '') ! (i + 1) = CHR '' '')"
      using no_double_space_after [OF v(1) v(2)] by blast
    ultimately show ?thesis using False by auto
  qed
  have e: "onresult
         [\<lparr>id' = ''1'', title = ''Untitled 1'', content = ''Hello world ''\<rparr>]
         (Some ''1'') ''period''
         [\<lparr>id' = ''1'', title = ''Untitled 1'', content = ''Hello world ''\<rparr>]
       = Inr [\<lparr>id' = ''1'', title = ''Untitled 1'', content = ''Hello world. ''\<rparr>]"
    by code_simp
  from g t m e show ?thesis by blast
qed

theorem punctuation_command_attaches_witness:
  "map_of DICTATION_COMMANDS ''question mark'' = Some ''?'' \<and> \<not> startsWith ''?'' [CHR 0x0A] \<and>
   command_newContent (get_command ''question mark'') ''Is it  '' = Inr ''Is it ? ''"
proof -
  have h1: "map_of DICTATION_COMMANDS ''question mark'' = Some ''?''"
    by (simp add: DICTATION_COMMANDS_def)
  have h2: "\<not> startsWith ''?'' [CHR 0x0A]"
    by (simp add: startsWith_def)
  from punctuation_command_attaches [OF h1 h2, of "''Is it  ''"]
  obtain kept r where
    a: "command_newContent (get_command ''question mark'') ''Is it  '' = Inr r" and
    b: "r = kept @ ''?'' @ '' ''" and
    c: "if ''Is it  '' \<noteq> [] \<and> suffix '' '' ''Is it  '' then ''Is it  '' = kept @ '' ''
        else kept = ''Is it  ''"
    by blast
  have "suffix '' '' ''Is it  ''"
    by (simp add: suffix_def)
  with c have "''Is it  '' = kept @ '' ''" by simp
  then have "kept = ''Is it ''" by simp
  with a b h1 h2 show ?thesis by simp
qed

section \<open>Line-break commands\<close>

text \<open>
  Claim C1. The handler at the command \<open>new line\<close>: on empty content the new content is
  a line feed followed by a space, not the line feed alone; on \<open>Hello \<close>, which ends
  with a space, that space is removed and the new content is \<open>Hello\<close>, a line feed and a
  space, not \<open>Hello \<close> and a line feed. Only on content that is non-empty and does not
  end with a space (\<open>Hello\<close>) is a space inserted and the line feed appended with
  nothing after it. A line-break command that fails the test of line 134 is handled by
  the two branches the comment of line 137 reserves for other punctuation.
\<close>

theorem line_break_command_falls_through:
  "onresult [\<lparr>id' = ''1'', title = ''Untitled 1'', content = []\<rparr>] (Some ''1'') ''new line''
            [\<lparr>id' = ''1'', title = ''Untitled 1'', content = []\<rparr>]
     = Inr [\<lparr>id' = ''1'', title = ''Untitled 1'', content = [CHR 0x0A, CHR '' '']\<rparr>]
   \<and> onresult [\<lparr>id' = ''1'', title = ''Untitled 1'', content = ''Hello ''\<rparr>] (Some ''1'') ''new line''
            [\<lparr>id' = ''1'', title = ''Untitled 1'', content = ''Hello ''\<rparr>]
     = Inr [\<lparr>id' = ''1'', title = ''Untitled 1'', content = ''Hello'' @ [CHR 0x0A, CHR '' '']\<rparr>]
   \<and> onresult [\<lparr>id' = ''1'', title = ''Untitled 1'', content = ''Hello''\<rparr>] (Some ''1'') ''new line''
            [\<lparr>id' = ''1'', title = ''Untitled 1'', content = ''Hello''\<rparr>]
     = Inr [\<lparr>id' = ''1'', title = ''Untitled 1'', content = ''Hello '' @ [CHR 0x0A]\<rparr>]"
  by code_simp

text \<open>The two cases for every line-break command and every content.\<close>

lemma line_break_command_with_space_inserted:
  assumes "map_of DICTATION_COMMANDS phrase = Some S" and "startsWith S [CHR 0x0A]"
    and "c \<noteq> []" and "\<not> suffix '' '' c"
  shows "command_newContent (get_command phrase) c = Inr (c @ '' '' @ S)"
  using assms by (simp add: get_command_def endsWith_suffix)

lemma line_break_command_otherwise:
  assumes "map_of DICTATION_COMMANDS phrase = Some S" and "startsWith S [CHR 0x0A]"
    and "c = [] \<or> suffix '' '' c"
  shows "\<exists>kept. command_newContent (get_command phrase) c = Inr (kept @ S @ '' '') \<and>
           (if c = [] then kept = [] else c = kept @ '' '')"
proof (cases "c = []")
  case True
  then show ?thesis using assms(1) by (simp add: get_command_def endsWith_def)
next
  case False
  with assms(3) obtain body where c: "c = body @ '' ''"
    by (auto simp: suffix_def)
  show ?thesis
    using assms(1) command_values(3) [OF assms(1)]
    by (simp add: get_command_def c endsWith_space slice_0_minus1_snoc)
qed

section \<open>Classification\<close>

text \<open>
  Claim C4. The phrase \<open>constructor\<close> is no key of the command table, yet the property
  read of line 128 gives the function inherited from \<open>Object.prototype\<close>, the test of
  line 129 takes the command branch, and \<open>command.startsWith\<close> throws in the updater: the
  utterance is not handled as dictated text, and the handler fails.
\<close>

theorem inherited_property_taken_as_command:
  "map_of DICTATION_COMMANDS ''constructor'' = None
   \<and> get_command ''constructor'' = JObject
   \<and> truthy (get_command (trim (toLowerCase ''Constructor'')))
   \<and> onresult [\<lparr>id' = ''1'', title = ''Untitled 1'', content = ''Hello ''\<rparr>] (Some ''1'') ''Constructor''
            [\<lparr>id' = ''1'', title = ''Untitled 1'', content = ''Hello ''\<rparr>]
     = Inl TypeError"
  by code_simp

text \<open>For every key that is no property of \<open>Object.prototype\<close> the lookup is the exact
  match against the table.\<close>

lemma classification_outside_Object_prototype:
  assumes "key \<notin> set Object_prototype"
  shows "(get_command key = JString S) = (map_of DICTATION_COMMANDS key = Some S)"
    and "truthy (get_command key) = (key \<in> fst ` set DICTATION_COMMANDS)"
    and "key \<notin> fst ` set DICTATION_COMMANDS \<Longrightarrow> get_command key = JUndefined"
proof -
  show "(get_command key = JString S) = (map_of DICTATION_COMMANDS key = Some S)"
    using assms by (auto simp: get_command_def split: option.splits)
  show "truthy (get_command key) = (key \<in> fst ` set DICTATION_COMMANDS)"
  proof (cases "map_of DICTATION_COMMANDS key")
    case None
    moreover from None have "key \<notin> fst ` set DICTATION_COMMANDS"
      by (simp add: map_of_eq_None_iff)
    ultimately show ?thesis using assms by (simp add: get_command_def)
  next
    case (Some S)
    then have "key \<in> fst ` set DICTATION_COMMANDS"
      by (auto dest: map_of_SomeD intro: image_eqI [where x = "(key, S)"])
    then show ?thesis using Some command_values(1) [OF Some] by (simp add: get_command_def)
  qed
  show "key \<notin> fst ` set DICTATION_COMMANDS \<Longrightarrow> get_command key = JUndefined"
  proof -
    assume "key \<notin> fst ` set DICTATION_COMMANDS"
    then have "map_of DICTATION_COMMANDS key = None"
      by (simp add: map_of_eq_None_iff)
    then show ?thesis using assms by (simp add: get_command_def)
  qed
qed

section \<open>The end of the merged content\<close>

lemma dropWhile_hd: "dropWhile P xs \<noteq> [] \<Longrightarrow> \<not> P (hd (dropWhile P xs))"
  by (metis hd_dropWhile)

lemma trim_last: "trim s \<noteq> [] \<Longrightarrow> last (trim s) \<notin> set white_space"
proof -
  let ?P = "\<lambda>c. c \<in> set white_space"
  let ?ys = "dropWhile ?P (rev (dropWhile ?P s))"
  assume "trim s \<noteq> []"
  then have ne: "?ys \<noteq> []" by (simp add: trim_def)
  then have "\<not> ?P (hd ?ys)" by (rule dropWhile_hd)
  moreover have "last (trim s) = hd ?ys"
    using ne by (simp add: trim_def last_rev)
  ultimately show ?thesis by simp
qed

lemma trim_last_space: "trim s \<noteq> [] \<Longrightarrow> last (trim s) \<noteq> CHR '' ''"
  using trim_last [of s] by (auto simp: white_space_def)

lemma toUpperCase_char_upper:
  "toUpperCase_char c = ''SS'' \<or> (\<exists>u\<in>set upper_letters. toUpperCase_char c = [u]) \<or>
   toUpperCase_char c = [c]"
proof (cases "map_of (zip lower_letters upper_letters) c")
  case None
  then show ?thesis by (simp add: toUpperCase_char_def)
next
  case (Some u)
  then have "u \<in> set upper_letters"
    by (auto dest!: map_of_SomeD dest: set_zip_rightD)
  then show ?thesis using Some by (simp add: toUpperCase_char_def)
qed

lemma toUpperCase_char_nonempty: "toUpperCase_char c \<noteq> []"
  using toUpperCase_char_upper [of c] by auto

lemma toUpperCase_char_last:
  assumes "c \<noteq> CHR '' ''"
  shows "last (toUpperCase_char c) \<noteq> CHR '' ''"
proof -
  have "CHR '' '' \<notin> set upper_letters"
    by (simp add: upper_letters_def)
  then show ?thesis
    using assms toUpperCase_char_upper [of c] by auto
qed

lemma capitalized:
  "toUpperCase (charAt0 T) @ slice_1 T =
     (case T of [] \<Rightarrow> [] | c # rest \<Rightarrow> toUpperCase_char c @ rest)"
  by (cases T) (simp_all add: toUpperCase_def charAt0_def slice_1_def)

lemma processedText_last:
  assumes "T \<noteq> []" and "last T \<noteq> CHR '' ''"
  shows "processedText cur T \<noteq> [] \<and> last (processedText cur T) \<noteq> CHR '' ''"
proof (cases T)
  case Nil
  then show ?thesis using assms by simp
next
  case (Cons c rest)
  show ?thesis
  proof (cases rest)
    case Nil
    then have "c \<noteq> CHR '' ''"
      using assms \<open>T = c # rest\<close> by simp
    then have "last (toUpperCase_char c) \<noteq> CHR '' ''"
      by (rule toUpperCase_char_last)
    then show ?thesis
      using assms \<open>T = c # rest\<close> \<open>rest = []\<close> toUpperCase_char_nonempty [of c]
      by (auto simp: processedText_def capitalized)
  next
    case (Cons d rest')
    then show ?thesis
      using assms \<open>T = c # rest\<close> toUpperCase_char_nonempty [of c]
      by (auto simp: processedText_def capitalized)
  qed
qed

lemma nth_before_last:
  assumes "S \<noteq> []"
  shows "(xs @ S @ [y]) ! (length (xs @ S @ [y]) - 2) = last S"
proof (cases S rule: rev_cases)
  case Nil
  then show ?thesis using assms by simp
next
  case (snoc S' z)
  have "((xs @ S') @ z # [y]) ! length (xs @ S') = z"
    by (rule nth_append_length)
  then show ?thesis using snoc by simp
qed


lemma merged_content_ending:
  assumes "T = trim (toLowerCase transcript)" and "T \<noteq> []"
    and "if truthy (get_command T) then command_newContent (get_command T) c = Inr r
         else r = dictation_newContent c (processedText cur T)"
  shows "r \<noteq> [] \<and> (last r = CHR 0x0A \<or> last r = CHR '' '') \<and>
    ((last r = CHR 0x0A) =
       ((\<exists>S. map_of DICTATION_COMMANDS T = Some S \<and> startsWith S [CHR 0x0A]) \<and>
         c \<noteq> [] \<and> last c \<noteq> CHR '' '')) \<and>
    (last r = CHR '' '' \<longrightarrow> 2 \<le> length r \<and> r ! (length r - 2) \<noteq> CHR '' '')"
proof (cases "map_of DICTATION_COMMANDS T")
  case (Some S)
  note v = command_values [OF Some]
  have g: "get_command T = JString S" using Some by (simp add: get_command_def)
  have lastS: "last S \<noteq> CHR '' ''" using v(1) v(2) last_in_set by metis
  show ?thesis
  proof (cases "startsWith S [CHR 0x0A] \<and> c \<noteq> [] \<and> last c \<noteq> CHR '' ''")
    case True
    then have r: "r = c @ '' '' @ S"
      using assms(3) v(1) by (simp add: g endsWith_space)
    have "last r = CHR 0x0A"
      using r v(1) line_break_values(2) [OF Some] True by simp
    then show ?thesis using r True Some by auto
  next
    case False
    have "\<exists>kept. r = kept @ S @ '' ''"
      using assms(3) v(1) False by (auto simp: g endsWith_space)
    then obtain kept where r: "r = kept @ S @ '' ''" by blast
    have "r ! (length r - 2) = last S"
      unfolding r using nth_before_last [OF v(1), of kept "CHR '' ''"] by simp
    moreover have "2 \<le> length r" using r v(1) by (cases S) simp_all
    moreover have "last r = CHR '' ''" using r by simp
    ultimately show ?thesis using False Some lastS by auto
  qed
next
  case None
  show ?thesis
  proof (cases "T \<in> set Object_prototype")
    case True
    then have "get_command T = JObject" using None by (simp add: get_command_def)
    then show ?thesis using assms(3) by simp
  next
    case False
    then have "get_command T = JUndefined" using None by (simp add: get_command_def)
    then have r: "r = dictation_newContent c (processedText cur T)"
      using assms(3) by simp
    have "last T \<noteq> CHR '' ''"
      using assms(1,2) trim_last_space by blast
    from processedText_last [OF assms(2) this, of cur]
    have p: "processedText cur T \<noteq> []" "last (processedText cur T) \<noteq> CHR '' ''"
      by simp_all
    obtain kept where r': "r = kept @ processedText cur T @ '' ''"
      using r by (simp add: dictation_newContent_def)
    have "r ! (length r - 2) = last (processedText cur T)"
      unfolding r' using nth_before_last [OF p(1), of kept "CHR '' ''"] by simp
    moreover have "2 \<le> length r" using r' p(1) by (cases "processedText cur T") simp_all
    moreover have "last r = CHR '' ''" using r' by simp
    ultimately show ?thesis using None p(2) by auto
  qed
qed


section \<open>The result of the handler\<close>

lemma map_tabs_total:
  assumes "\<forall>t\<in>set ts. f t = Inr (g t)"
  shows "map_tabs f ts = Inr (map g ts)"
  using assms by (induction ts) simp_all

lemma command_newContent_longer:
  assumes "command_newContent (JString S) c = Inr r" and "S \<noteq> []"
  shows "length c < length r"
proof -
  obtain x S' where S: "S = x # S'"
    using assms(2) by (cases S) auto
  have "r = c @ '' '' @ S \<or> (c \<noteq> [] \<and> r = slice_0_minus1 c @ S @ '' '') \<or> r = c @ S @ '' ''"
    using assms(1) by (auto split: if_splits)
  moreover have "c \<noteq> [] \<Longrightarrow> length (slice_0_minus1 c) + 1 = length c"
    by (cases c) (simp_all add: slice_0_minus1_def)
  ultimately show ?thesis
    unfolding S by auto
qed

lemma dictation_newContent_longer: "length c < length (dictation_newContent c P)"
  by (simp add: dictation_newContent_def)

lemma onresult_found:
  assumes "find (\<lambda>tab. Some (id' tab) = current) captured = Some currentTab"
    and "get_command (trim (toLowerCase transcript)) \<noteq> JObject"
  shows "\<exists>f. onresult captured current transcript prevTabs =
           Inr (map (\<lambda>tab. if Some (id' tab) = current then tab\<lparr>content := f (content tab)\<rparr>
                            else tab) prevTabs) \<and>
         (\<forall>c. length c < length (f c) \<and>
           (if truthy (get_command (trim (toLowerCase transcript)))
            then command_newContent (get_command (trim (toLowerCase transcript))) c = Inr (f c)
            else f c = dictation_newContent c
                   (processedText (content currentTab) (trim (toLowerCase transcript)))))"
proof (cases "get_command (trim (toLowerCase transcript))")
  case (JString S)
  show ?thesis
  proof (cases "S = []")
    case True
    let ?f = "\<lambda>c. dictation_newContent c
                (processedText (content currentTab) (trim (toLowerCase transcript)))"
    have "\<forall>c. length c < length (?f c)"
      using dictation_newContent_longer by blast
    then show ?thesis
      using assms(1) JString True
      by (intro exI [of _ ?f]) (simp add: onresult_def Let_def)
  next
    case False
    obtain f where f: "\<forall>c. command_newContent (JString S) c = Inr (f c)"
      by (intro that [of "\<lambda>c. if startsWith S [CHR 0x0A] \<and> c \<noteq> [] \<and> \<not> endsWith c '' ''
          then c @ '' '' @ S
          else if c \<noteq> [] \<and> endsWith c '' '' \<and> S \<noteq> '' ''
          then slice_0_minus1 c @ S @ '' ''
          else c @ S @ '' ''"]) simp
    have ne: "\<forall>c. length c < length (f c)"
      using command_newContent_longer [OF _ False] f by blast
    have "map_tabs (\<lambda>tab.
                  if Some (id' tab) = current
                  then (case command_newContent (JString S) (content tab) of
                          Inl e \<Rightarrow> Inl e
                        | Inr newContent \<Rightarrow> Inr (tab\<lparr>content := newContent\<rparr>))
                  else Inr tab) prevTabs
          = Inr (map (\<lambda>tab. if Some (id' tab) = current then tab\<lparr>content := f (content tab)\<rparr>
                            else tab) prevTabs)"
      by (rule map_tabs_total) (simp add: f del: command_newContent.simps)
    moreover have "truthy (JString S)" using False by simp
    ultimately have "onresult captured current transcript prevTabs =
           Inr (map (\<lambda>tab. if Some (id' tab) = current then tab\<lparr>content := f (content tab)\<rparr>
                            else tab) prevTabs)"
      unfolding onresult_def Let_def JString assms(1) by simp
    then show ?thesis
      unfolding JString using False f ne by (intro exI [of _ f]) simp
  qed
next
  case JObject
  then show ?thesis using assms(2) by simp
next
  case JUndefined
  let ?f = "\<lambda>c. dictation_newContent c
              (processedText (content currentTab) (trim (toLowerCase transcript)))"
  have "\<forall>c. length c < length (?f c)"
    using dictation_newContent_longer by blast
  then show ?thesis
    using assms(1) JUndefined
    by (intro exI [of _ ?f]) (simp add: onresult_def Let_def)
qed

lemma map_tabs_throw:
  assumes "\<forall>t\<in>set ts. f t = (if P t then Inl e else Inr t)"
  shows "map_tabs f ts = (if list_ex P ts then Inl e else Inr ts)"
  using assms by (induction ts) simp_all

lemma onresult_absent:
  assumes "find (\<lambda>tab. Some (id' tab) = current) captured = None"
  shows "onresult captured current transcript prevTabs = Inr prevTabs"
  using assms by (simp add: onresult_def)

lemma onresult_throws:
  assumes "find (\<lambda>tab. Some (id' tab) = current) captured = Some currentTab"
    and "get_command (trim (toLowerCase transcript)) = JObject"
  shows "onresult captured current transcript prevTabs =
           (if list_ex (\<lambda>tab. Some (id' tab) = current) prevTabs then Inl TypeError
            else Inr prevTabs)"
proof -
  have "map_tabs (\<lambda>tab.
          if Some (id' tab) = current
          then (case command_newContent JObject (content tab) of
                  Inl e \<Rightarrow> Inl e
                | Inr newContent \<Rightarrow> Inr (tab\<lparr>content := newContent\<rparr>))
          else Inr tab) prevTabs
        = (if list_ex (\<lambda>tab. Some (id' tab) = current) prevTabs then Inl TypeError
           else Inr prevTabs)"
    by (rule map_tabs_throw) simp
  then show ?thesis
    unfolding onresult_def Let_def assms by simp
qed

lemma get_command_JObject:
  "(get_command key = JObject) = (key \<in> set Object_prototype)"
proof (cases "map_of DICTATION_COMMANDS key")
  case None
  then show ?thesis by (simp add: get_command_def)
next
  case (Some S)
  then have "key \<in> fst ` set DICTATION_COMMANDS"
    by (auto dest: map_of_SomeD intro: image_eqI [where x = "(key, S)"])
  then have "key \<notin> set Object_prototype"
    by (auto simp: DICTATION_COMMANDS_def Object_prototype_def)
  then show ?thesis using Some by (simp add: get_command_def)
qed

text \<open>
  Claim C10. Let the normalized transcript \<open>T\<close> of an utterance be non-empty. Whenever
  the handler gives a next state, every tab is either unchanged or is a tab with the
  active id whose content \<open>c\<close> was replaced by a longer content \<open>r\<close>, and \<open>r\<close> ends with a
  line feed or a space; it ends with a line feed exactly when \<open>T\<close> is a line-break
  command and \<open>c\<close> is non-empty and does not end with a space; and when it ends with a
  space, the character before that space is no space. The handler throws only for a
  \<open>T\<close> that is a property name of \<open>Object.prototype\<close>. For every other \<open>T\<close>, when the
  handler's \<open>tabs\<close> hold a tab with the active id, it gives a next state in which every
  tab with the active id has changed.
\<close>

theorem onresult_content_ending:
  assumes "trim (toLowerCase transcript) \<noteq> []"
  shows "(case onresult captured current transcript prevTabs of
            Inl e \<Rightarrow> trim (toLowerCase transcript) \<in> set Object_prototype
          | Inr tabs' \<Rightarrow>
              length tabs' = length prevTabs \<and>
              (\<forall>i<length prevTabs.
                 tabs' ! i = prevTabs ! i \<or>
                 (\<exists>r. tabs' ! i = (prevTabs ! i)\<lparr>content := r\<rparr> \<and>
                      Some (id' (prevTabs ! i)) = current \<and>
                      length (content (prevTabs ! i)) < length r \<and>
                      (last r = CHR 0x0A \<or> last r = CHR '' '') \<and>
                      ((last r = CHR 0x0A) =
                         ((\<exists>S. map_of DICTATION_COMMANDS (trim (toLowerCase transcript)) = Some S \<and>
                               startsWith S [CHR 0x0A]) \<and>
                          content (prevTabs ! i) \<noteq> [] \<and>
                          last (content (prevTabs ! i)) \<noteq> CHR '' '')) \<and>
                      (last r = CHR '' '' \<longrightarrow>
                         2 \<le> length r \<and> r ! (length r - 2) \<noteq> CHR '' ''))))
     \<and> (find (\<lambda>tab. Some (id' tab) = current) captured \<noteq> None \<and>
        trim (toLowerCase transcript) \<notin> set Object_prototype \<longrightarrow>
          (\<exists>tabs'. onresult captured current transcript prevTabs = Inr tabs' \<and>
             (\<forall>i<length prevTabs.
                Some (id' (prevTabs ! i)) = current \<longrightarrow> tabs' ! i \<noteq> prevTabs ! i)))"
proof (cases "find (\<lambda>tab. Some (id' tab) = current) captured")
  case None
  then show ?thesis by (simp add: onresult_absent)
next
  case (Some currentTab)
  let ?T = "trim (toLowerCase transcript)"
  show ?thesis
  proof (cases "get_command ?T = JObject")
    case True
    then have "?T \<in> set Object_prototype"
      by (simp add: get_command_JObject)
    then show ?thesis
      by (simp add: onresult_throws [OF Some True])
  next
    case False
    then have np: "?T \<notin> set Object_prototype"
      by (simp add: get_command_JObject)
    from onresult_found [OF Some False, of prevTabs]
    obtain f where
      o: "onresult captured current transcript prevTabs =
           Inr (map (\<lambda>tab. if Some (id' tab) = current then tab\<lparr>content := f (content tab)\<rparr>
                            else tab) prevTabs)" and
      f: "\<forall>c. length c < length (f c) \<and>
           (if truthy (get_command ?T)
            then command_newContent (get_command ?T) c = Inr (f c)
            else f c = dictation_newContent c (processedText (content currentTab) ?T))"
      by blast
    have e: "f c \<noteq> [] \<and> (last (f c) = CHR 0x0A \<or> last (f c) = CHR '' '') \<and>
        ((last (f c) = CHR 0x0A) =
           ((\<exists>S. map_of DICTATION_COMMANDS ?T = Some S \<and> startsWith S [CHR 0x0A]) \<and>
             c \<noteq> [] \<and> last c \<noteq> CHR '' '')) \<and>
        (last (f c) = CHR '' '' \<longrightarrow> 2 \<le> length (f c) \<and> f c ! (length (f c) - 2) \<noteq> CHR '' '')"
      for c
      by (rule merged_content_ending [OF refl assms, of c "f c" "content currentTab"])
         (use f in blast)
    have changed: "t\<lparr>content := f (content t)\<rparr> \<noteq> t" for t :: tab
    proof
      assume "t\<lparr>content := f (content t)\<rparr> = t"
      then have "content (t\<lparr>content := f (content t)\<rparr>) = content t" by simp
      then have "f (content t) = content t" by simp
      then show False using f by (metis less_irrefl)
    qed
    have first: "\<forall>i<length prevTabs.
         map (\<lambda>tab. if Some (id' tab) = current then tab\<lparr>content := f (content tab)\<rparr>
                     else tab) prevTabs ! i = prevTabs ! i \<or>
         (\<exists>r. map (\<lambda>tab. if Some (id' tab) = current then tab\<lparr>content := f (content tab)\<rparr>
                     else tab) prevTabs ! i = (prevTabs ! i)\<lparr>content := r\<rparr> \<and>
              Some (id' (prevTabs ! i)) = current \<and>
              length (content (prevTabs ! i)) < length r \<and>
              (last r = CHR 0x0A \<or> last r = CHR '' '') \<and>
              ((last r = CHR 0x0A) =
                 ((\<exists>S. map_of DICTATION_COMMANDS ?T = Some S \<and> startsWith S [CHR 0x0A]) \<and>
                  content (prevTabs ! i) \<noteq> [] \<and> last (content (prevTabs ! i)) \<noteq> CHR '' '')) \<and>
              (last r = CHR '' '' \<longrightarrow> 2 \<le> length r \<and> r ! (length r - 2) \<noteq> CHR '' ''))"
    proof (intro allI impI)
      fix i assume i: "i < length prevTabs"
      show "map (\<lambda>tab. if Some (id' tab) = current then tab\<lparr>content := f (content tab)\<rparr>
                     else tab) prevTabs ! i = prevTabs ! i \<or>
         (\<exists>r. map (\<lambda>tab. if Some (id' tab) = current then tab\<lparr>content := f (content tab)\<rparr>
                     else tab) prevTabs ! i = (prevTabs ! i)\<lparr>content := r\<rparr> \<and>
              Some (id' (prevTabs ! i)) = current \<and>
              length (content (prevTabs ! i)) < length r \<and>
              (last r = CHR 0x0A \<or> last r = CHR '' '') \<and>
              ((last r = CHR 0x0A) =
                 ((\<exists>S. map_of DICTATION_COMMANDS ?T = Some S \<and> startsWith S [CHR 0x0A]) \<and>
                  content (prevTabs ! i) \<noteq> [] \<and> last (content (prevTabs ! i)) \<noteq> CHR '' '')) \<and>
              (last r = CHR '' '' \<longrightarrow> 2 \<le> length r \<and> r ! (length r - 2) \<noteq> CHR '' ''))"
      proof (cases "Some (id' (prevTabs ! i)) = current")
        case True
        have "map (\<lambda>tab. if Some (id' tab) = current then tab\<lparr>content := f (content tab)\<rparr>
                     else tab) prevTabs ! i = (prevTabs ! i)\<lparr>content := f (content (prevTabs ! i))\<rparr>"
          using i True by simp
        moreover have "length (content (prevTabs ! i)) < length (f (content (prevTabs ! i)))"
          using f by blast
        ultimately show ?thesis
          using True e [of "content (prevTabs ! i)"] by blast
      next
        case False
        then show ?thesis using i by simp
      qed
    qed
    have second: "\<forall>i<length prevTabs. Some (id' (prevTabs ! i)) = current \<longrightarrow>
         map (\<lambda>tab. if Some (id' tab) = current then tab\<lparr>content := f (content tab)\<rparr>
                     else tab) prevTabs ! i \<noteq> prevTabs ! i"
      using changed by simp
    show ?thesis
      unfolding o using first second by simp
  qed
qed

theorem onresult_content_ending_witness:
  "trim (toLowerCase '' New Paragraph '') \<noteq> []
   \<and> find (\<lambda>tab. Some (id' tab) = Some ''1'')
        [\<lparr>id' = ''1'', title = ''Untitled 1'', content = ''Hello''\<rparr>] \<noteq> None
   \<and> trim (toLowerCase '' New Paragraph '') \<notin> set Object_prototype
   \<and> (\<exists>tabs'. onresult [\<lparr>id' = ''1'', title = ''Untitled 1'', content = ''Hello''\<rparr>] (Some ''1'')
                 '' New Paragraph '' [\<lparr>id' = ''1'', title = ''Untitled 1'', content = ''Hello''\<rparr>]
               = Inr tabs'
            \<and> length tabs' = 1
            \<and> length ''Hello'' < length (content (tabs' ! 0))
            \<and> last (content (tabs' ! 0)) = CHR 0x0A)"
proof -
  let ?t = "\<lparr>id' = ''1'', title = ''Untitled 1'', content = ''Hello''\<rparr>"
  have t: "trim (toLowerCase '' New Paragraph '') = ''new paragraph''"
    by code_simp
  have h1: "trim (toLowerCase '' New Paragraph '') \<noteq> []"
    by (simp add: t)
  have h2: "find (\<lambda>tab. Some (id' tab) = Some ''1'') [?t] \<noteq> None"
    by simp
  have h3: "trim (toLowerCase '' New Paragraph '') \<notin> set Object_prototype"
    unfolding t by (simp add: Object_prototype_def)
  have m: "map_of DICTATION_COMMANDS ''new paragraph'' = Some [CHR 0x0A, CHR 0x0A]"
    by (simp add: DICTATION_COMMANDS_def)
  note w = onresult_content_ending [OF h1, of "[?t]" "Some ''1''" "[?t]"]
  from w h2 h3 obtain tabs' where
    o: "onresult [?t] (Some ''1'') '' New Paragraph '' [?t] = Inr tabs'" and
    c: "tabs' ! 0 \<noteq> ?t"
    by auto
  from w o have l: "length tabs' = 1" and
    d: "tabs' ! 0 = ?t \<or>
         (\<exists>r. tabs' ! 0 = ?t\<lparr>content := r\<rparr> \<and> length ''Hello'' < length r \<and>
              ((last r = CHR 0x0A) =
                 ((\<exists>S. map_of DICTATION_COMMANDS (trim (toLowerCase '' New Paragraph '')) = Some S \<and>
                       startsWith S [CHR 0x0A]) \<and>
                  ''Hello'' \<noteq> [] \<and> last ''Hello'' \<noteq> CHR '' '')))"
    by auto
  from d c obtain r where
    r: "tabs' ! 0 = ?t\<lparr>content := r\<rparr>" "length ''Hello'' < length r"
       "(last r = CHR 0x0A) =
          ((\<exists>S. map_of DICTATION_COMMANDS (trim (toLowerCase '' New Paragraph '')) = Some S \<and>
                startsWith S [CHR 0x0A]) \<and>
           ''Hello'' \<noteq> [] \<and> last ''Hello'' \<noteq> CHR '' '')"
    by blast
  have "last r = CHR 0x0A"
    unfolding r(3) t by (simp add: m startsWith_def)
  with r(1,2) have "length ''Hello'' < length (content (tabs' ! 0)) \<and>
      last (content (tabs' ! 0)) = CHR 0x0A"
    by simp
  with h1 h2 h3 o l show ?thesis by blast
qed

section \<open>Dictated text\<close>

lemma onresult_dictated:
  assumes "\<not> truthy (get_command (trim (toLowerCase transcript)))"
    and "find (\<lambda>tab. Some (id' tab) = current) captured = Some currentTab"
  shows "onresult captured current transcript prevTabs =
     Inr (map (\<lambda>tab.
       if Some (id' tab) = current
       then tab\<lparr>content := dictation_newContent (content tab)
               (processedText (content currentTab) (trim (toLowerCase transcript)))\<rparr>
       else tab) prevTabs)"
  using assms by (simp add: onresult_def Let_def)

text \<open>
  The rule of lines 150 to 162 for a dictated utterance with normalized text \<open>T\<close>: the
  test for the start of a sentence reads the content of \<open>currentTab\<close>, the tab with the
  active id in the handler's \<open>tabs\<close>; the text is appended to the content of the tab with
  the active id in the state.
\<close>

lemma dictation_rule:
  assumes "T = trim (toLowerCase transcript)" and "\<not> truthy (get_command T)"
    and "find (\<lambda>tab. Some (id' tab) = current) captured = Some currentTab"
  shows "\<exists>P. onresult captured current transcript prevTabs =
       Inr (map (\<lambda>tab.
         if Some (id' tab) = current
         then tab\<lparr>content := content tab
                 @ (if content tab \<noteq> [] \<and> \<not> suffix '' '' (content tab) then '' '' else [])
                 @ P @ '' ''\<rparr>
         else tab) prevTabs)
     \<and> (if content currentTab = [] \<or> suffix ''. '' (content currentTab)
            \<or> suffix ''! '' (content currentTab) \<or> suffix ''? '' (content currentTab)
         then P = (case T of [] \<Rightarrow> [] | c # rest \<Rightarrow> toUpperCase_char c @ rest)
         else P = T)"
proof -
  let ?P = "processedText (content currentTab) T"
  have "onresult captured current transcript prevTabs =
       Inr (map (\<lambda>tab.
         if Some (id' tab) = current
         then tab\<lparr>content := content tab
                 @ (if content tab \<noteq> [] \<and> \<not> suffix '' '' (content tab) then '' '' else [])
                 @ ?P @ '' ''\<rparr>
         else tab) prevTabs)"
    using onresult_dictated [OF assms(2) [unfolded assms(1)] assms(3), of prevTabs]
    by (simp add: assms(1) dictation_newContent_def endsWith_suffix)
  moreover have "if content currentTab = [] \<or> suffix ''. '' (content currentTab)
            \<or> suffix ''! '' (content currentTab) \<or> suffix ''? '' (content currentTab)
         then ?P = (case T of [] \<Rightarrow> [] | c # rest \<Rightarrow> toUpperCase_char c @ rest)
         else ?P = T"
    by (auto simp: processedText_def endsWith_suffix capitalized)
  ultimately show ?thesis by blast
qed

text \<open>
  Claim C2. One listening session on the default document, started at time 0; the
  handler of the started recognition object has closed over the tabs of that moment.
  The utterance \<open>hello world\<close> gives the content \<open>Hello world \<close>. The same utterance
  again is tested against the content the handler has closed over, which is still
  empty: it is capitalised again and the content becomes \<open>Hello world Hello world \<close>,
  although the content it is appended to ends with \<open>d \<close> and not with the end of a
  sentence. Only a handler whose \<open>tabs\<close> are the ones of the state appends
  \<open>hello world \<close>.
\<close>

theorem second_dictation_capitalised_by_captured_content:
  "tabs (toggleListening 0 (initial_app (\<lambda>v. None) [[]] 0))
     = [\<lparr>id' = ''1'', title = ''Untitled 1'', content = []\<rparr>]
   \<and> map_sum fst tabs
       (deliver [\<lparr>id' = ''1'', title = ''Untitled 1'', content = []\<rparr>]
          [(1000, ''hello world'')]
          (toggleListening 0 (initial_app (\<lambda>v. None) [[]] 0)))
     = Inr [\<lparr>id' = ''1'', title = ''Untitled 1'', content = ''Hello world ''\<rparr>]
   \<and> map_sum fst tabs
       (deliver [\<lparr>id' = ''1'', title = ''Untitled 1'', content = []\<rparr>]
          [(1000, ''hello world''), (2000, ''hello world'')]
          (toggleListening 0 (initial_app (\<lambda>v. None) [[]] 0)))
     = Inr [\<lparr>id' = ''1'', title = ''Untitled 1'', content = ''Hello world Hello world ''\<rparr>]
   \<and> onresult [\<lparr>id' = ''1'', title = ''Untitled 1'', content = ''Hello world ''\<rparr>] (Some ''1'')
        ''hello world'' [\<lparr>id' = ''1'', title = ''Untitled 1'', content = ''Hello world ''\<rparr>]
     = Inr [\<lparr>id' = ''1'', title = ''Untitled 1'', content = ''Hello world hello world ''\<rparr>]"
  by code_simp

section \<open>The empty transcript\<close>

text \<open>
  Claim C9, as stated, fails: the empty transcript is no command, and the dictation
  branch appends to \<open>Hello\<close> two spaces and to the empty content one space.
\<close>

theorem empty_transcript_changes_content:
  "onresult [\<lparr>id' = ''1'', title = ''Untitled 1'', content = ''Hello''\<rparr>] (Some ''1'') []
        [\<lparr>id' = ''1'', title = ''Untitled 1'', content = ''Hello''\<rparr>]
     = Inr [\<lparr>id' = ''1'', title = ''Untitled 1'', content = ''Hello  ''\<rparr>]
   \<and> onresult [\<lparr>id' = ''1'', title = ''Untitled 1'', content = ''Hello''\<rparr>] (Some ''1'') []
        [\<lparr>id' = ''1'', title = ''Untitled 1'', content = ''Hello''\<rparr>]
     \<noteq> Inr [\<lparr>id' = ''1'', title = ''Untitled 1'', content = ''Hello''\<rparr>]
   \<and> onresult [\<lparr>id' = ''1'', title = ''Untitled 1'', content = []\<rparr>] (Some ''1'') []
        [\<lparr>id' = ''1'', title = ''Untitled 1'', content = []\<rparr>]
     = Inr [\<lparr>id' = ''1'', title = ''Untitled 1'', content = '' ''\<rparr>]"
  by code_simp

text \<open>
  Claim C9, amended. For a transcript that normalizes to the empty string the handler
  never throws. When its \<open>tabs\<close> hold a tab with the active id, the utterance is handled
  as dictated text: the content of every tab with the active id grows by two spaces when
  it is non-empty and does not end with a space, and by one space otherwise, and every
  other tab is unchanged. When its \<open>tabs\<close> hold no tab with the active id, the handler
  returns at line 125 and no tab changes.
\<close>

theorem empty_transcript_appends_spaces:
  assumes "trim (toLowerCase transcript) = []"
  shows "onresult captured current transcript prevTabs =
       Inr (if find (\<lambda>tab. Some (id' tab) = current) captured = None then prevTabs
            else map (\<lambda>tab.
              if Some (id' tab) = current
              then tab\<lparr>content := content tab
                      @ (if content tab \<noteq> [] \<and> last (content tab) \<noteq> CHR '' ''
                         then ''  '' else '' '')\<rparr>
              else tab) prevTabs)"
proof (cases "find (\<lambda>tab. Some (id' tab) = current) captured")
  case None
  then show ?thesis by (simp add: onresult_absent)
next
  case (Some currentTab)
  have g: "\<not> truthy (get_command (trim (toLowerCase transcript)))"
    unfolding assms by code_simp
  have p: "processedText (content currentTab) [] = []"
    by (simp add: processedText_def toUpperCase_def charAt0_def slice_1_def)
  have d: "dictation_newContent c [] =
             c @ (if c \<noteq> [] \<and> last c \<noteq> CHR '' '' then ''  '' else '' '')" for c
    by (simp add: dictation_newContent_def endsWith_space)
  show ?thesis
    using onresult_dictated [OF g Some, of prevTabs]
    by (simp add: assms p d Some)
qed

theorem empty_transcript_appends_spaces_witness:
  "trim (toLowerCase ''  '') = []
   \<and> onresult [\<lparr>id' = ''1'', title = ''Untitled 1'', content = ''Hello''\<rparr>] (Some ''1'') ''  ''
        [\<lparr>id' = ''1'', title = ''Untitled 1'', content = ''Hello''\<rparr>]
       = Inr [\<lparr>id' = ''1'', title = ''Untitled 1'', content = ''Hello  ''\<rparr>]
   \<and> onresult [] (Some ''1'') ''  ''
        [\<lparr>id' = ''1'', title = ''Untitled 1'', content = ''Hello''\<rparr>]
       = Inr [\<lparr>id' = ''1'', title = ''Untitled 1'', content = ''Hello''\<rparr>]"
proof -
  let ?t = "\<lparr>id' = ''1'', title = ''Untitled 1'', content = ''Hello''\<rparr>"
  have h1: "trim (toLowerCase ''  '') = []"
    by code_simp
  from empty_transcript_appends_spaces [OF h1, of "[?t]" "Some ''1''" "[?t]"]
  have a: "onresult [?t] (Some ''1'') ''  '' [?t]
       = Inr [\<lparr>id' = ''1'', title = ''Untitled 1'', content = ''Hello  ''\<rparr>]"
    by simp
  from empty_transcript_appends_spaces [OF h1, of "[]" "Some ''1''" "[?t]"]
  have b: "onresult [] (Some ''1'') ''  '' [?t] = Inr [?t]"
    by simp
  from h1 a b show ?thesis by blast
qed

section \<open>Closing a tab\<close>

lemma findIndex_position:
  assumes "\<forall>x\<in>set before. \<not> P x" and "P t"
  shows "findIndex P (before @ t # after) = int (length before)"
  using assms by (induction before) (auto simp: Let_def)

lemma at_index_before:
  "at_index (before @ t # after) (int (length before) - 1) =
     (if before = [] then None else Some (last before))"
  by (cases before rule: rev_cases) (auto simp: at_index_def nth_append)

lemma at_index_after:
  "at_index (before @ t # after) (int (length before) + 1) =
     (if after = [] then None else Some (hd after))"
proof (cases after)
  case Nil
  then show ?thesis by (simp add: at_index_def)
next
  case (Cons a as)
  have "nat (int (length before) + 1) = Suc (length before)" by simp
  then show ?thesis using Cons by (simp add: at_index_def nth_append)
qed

lemma distinct_ids_split:
  assumes "distinct (map id' (before @ t # after))"
  shows "\<forall>x\<in>set before. id' x \<noteq> id' t" and "\<forall>x\<in>set after. id' x \<noteq> id' t"
  using assms by (auto simp: image_iff)

lemma closeTab_at_position:
  assumes len: "length (tabs s) \<noteq> 1" and split: "tabs s = before @ t # after"
    and t: "id' t = tabId" and only: "\<forall>x\<in>set (before @ after). id' x \<noteq> tabId"
  shows "tabs (closeTab tabId s) = before @ after"
    and "activeTabId s \<noteq> Some tabId \<Longrightarrow> activeTabId (closeTab tabId s) = activeTabId s"
    and "activeTabId s = Some tabId \<Longrightarrow> (before \<noteq> [] \<Longrightarrow> id' (last before) \<noteq> []) \<Longrightarrow>
           activeTabId (closeTab tabId s) =
             Some (id' (if before \<noteq> [] then last before else hd after))"
proof -
  have f: "filter (\<lambda>tab. id' tab \<noteq> tabId) (tabs s) = before @ after"
    using only t by (simp add: split filter_id_conv)
  show "tabs (closeTab tabId s) = before @ after"
    using len f by (simp add: closeTab_def Let_def)
  show "activeTabId (closeTab tabId s) = activeTabId s" if "activeTabId s \<noteq> Some tabId"
    using len that by (simp add: closeTab_def Let_def)
  show "activeTabId (closeTab tabId s) =
          Some (id' (if before \<noteq> [] then last before else hd after))"
    if act: "activeTabId s = Some tabId" and left: "before \<noteq> [] \<Longrightarrow> id' (last before) \<noteq> []"
  proof -
    have "\<forall>x\<in>set before. \<not> id' x = tabId"
      using only by simp
    then have i: "findIndex (\<lambda>tab. id' tab = tabId) (tabs s) = int (length before)"
      unfolding split using t by (intro findIndex_position) auto
    have b: "at_index (tabs s) (int (length before) - 1) =
               (if before = [] then None else Some (last before))"
      unfolding split by (rule at_index_before)
    have a: "at_index (tabs s) (int (length before) + 1) =
               (if after = [] then None else Some (hd after))"
      unfolding split by (rule at_index_after)
    have n: "js_or (optional_id (at_index (tabs s) (int (length before) - 1)))
                   (optional_id (at_index (tabs s) (int (length before) + 1)))
             = Some (id' (if before \<noteq> [] then last before else hd after))"
    proof (cases "before = []")
      case True
      then have "after \<noteq> []" using len split by auto
      then show ?thesis
        unfolding a b using True by (simp add: js_or_def optional_id_def)
    next
      case False
      then show ?thesis
        unfolding a b using left by (simp add: js_or_def optional_id_def)
    qed
    show ?thesis
      using len act i n by (simp add: closeTab_def Let_def)
  qed
qed





section \<open>The active id and the tabs\<close>

lemma String_nat_nonempty: "String_nat n \<noteq> []"
  by (subst String_nat.simps) simp

lemma store_invariant_ids:
  "store_invariant s =
     (distinct (map id' (tabs s)) \<and> [] \<notin> set (map id' (tabs s)) \<and>
      activeTabId s \<in> Some ` set (map id' (tabs s)))"
  by (auto simp: store_invariant_def list_ex_iff)

lemma store_invariant_same_ids:
  assumes "store_invariant s" and "map id' (tabs s') = map id' (tabs s)"
    and "activeTabId s' = activeTabId s"
  shows "store_invariant s'"
  using assms unfolding store_invariant_ids by simp

lemma map_ids:
  assumes "\<And>t. id' (f t) = id' t"
  shows "map id' (map f ts) = map id' ts"
  using assms by (induction ts) simp_all

lemma map_tabs_ids:
  assumes "map_tabs f ts = Inr ts'" and "\<And>t t'. f t = Inr t' \<Longrightarrow> id' t' = id' t"
  shows "map id' ts' = map id' ts"
  using assms
proof (induction ts arbitrary: ts')
  case Nil
  then show ?case by simp
next
  case (Cons t ts)
  then show ?case by (auto split: sum.splits)
qed

lemma onresult_ids:
  assumes "onresult captured current transcript prevTabs = Inr tabs'"
  shows "map id' tabs' = map id' prevTabs"
proof (cases "find (\<lambda>tab. Some (id' tab) = current) captured")
  case None
  then show ?thesis using assms by (simp add: onresult_def)
next
  case (Some currentTab)
  show ?thesis
  proof (cases "truthy (get_command (trim (toLowerCase transcript)))")
    case True
    with Some assms have
      "map_tabs (\<lambda>tab.
          if Some (id' tab) = current
          then (case command_newContent (get_command (trim (toLowerCase transcript))) (content tab) of
                  Inl e \<Rightarrow> Inl e
                | Inr newContent \<Rightarrow> Inr (tab\<lparr>content := newContent\<rparr>))
          else Inr tab) prevTabs = Inr tabs'"
      by (simp add: onresult_def Let_def)
    then show ?thesis
      by (rule map_tabs_ids) (auto split: if_splits sum.splits)
  next
    case False
    with Some assms have "tabs' = map (\<lambda>tab.
        if Some (id' tab) = current
        then tab\<lparr>content := dictation_newContent (content tab)
               (processedText (content currentTab) (trim (toLowerCase transcript)))\<rparr>
        else tab) prevTabs"
      by (simp add: onresult_def Let_def)
    then show ?thesis by (simp add: map_ids)
  qed
qed

lemma recognition_onresult_ids:
  assumes "recognition_onresult captured now transcript s = Inr s'"
  shows "map id' (tabs s') = map id' (tabs s)" and "activeTabId s' = activeTabId s"
  using assms onresult_ids [of captured "activeTabRef s" transcript "tabs s"]
  by (auto simp: recognition_onresult_def Let_def split: option.splits sum.splits)

lemma closeTab_invariant:
  assumes "store_invariant s"
  shows "store_invariant (closeTab tabId s)"
proof (cases "length (tabs s) = 1")
  case True
  then show ?thesis using assms by (simp add: closeTab_def)
next
  case len: False
  have d: "distinct (map id' (tabs s))" and ne: "[] \<notin> set (map id' (tabs s))"
    and act: "activeTabId s \<in> Some ` set (map id' (tabs s))"
    using assms unfolding store_invariant_ids by simp_all
  show ?thesis
  proof (cases "activeTabId s = Some tabId")
    case True
    with act have "tabId \<in> set (map id' (tabs s))" by auto
    then obtain t where "t \<in> set (tabs s)" and t: "id' t = tabId" by auto
    then obtain before after where split: "tabs s = before @ t # after"
      by (auto dest: split_list)
    have only: "\<forall>x\<in>set (before @ after). id' x \<noteq> tabId"
      using distinct_ids_split [of before t after] d split t by auto
    have left: "before \<noteq> [] \<Longrightarrow> id' (last before) \<noteq> []"
    proof -
      assume "before \<noteq> []"
      then have "last before \<in> set (tabs s)" using split by simp
      then show ?thesis using ne by (auto simp: image_iff)
    qed
    have tabs': "tabs (closeTab tabId s) = before @ after"
      by (rule closeTab_at_position(1) [OF len split t only])
    have act': "activeTabId (closeTab tabId s) =
        Some (id' (if before \<noteq> [] then last before else hd after))"
      using closeTab_at_position(3) [OF len split t only True] left by blast
    have "before \<noteq> [] \<or> after \<noteq> []" using len split by auto
    then have "id' (if before \<noteq> [] then last before else hd after) \<in> set (map id' (before @ after))"
      by auto
    moreover have "distinct (map id' (before @ after))" "[] \<notin> set (map id' (before @ after))"
      using d ne split by auto
    ultimately show ?thesis
      unfolding store_invariant_ids tabs' act' by blast
  next
    case False
    then have c: "closeTab tabId s = s\<lparr>tabs := filter (\<lambda>tab. id' tab \<noteq> tabId) (tabs s)\<rparr>"
      using len by (simp add: closeTab_def)
    from act False obtain a where a: "a \<in> set (tabs s)" "activeTabId s = Some (id' a)" "id' a \<noteq> tabId"
      by auto
    then have "activeTabId s \<in> Some ` set (map id' (filter (\<lambda>tab. id' tab \<noteq> tabId) (tabs s)))"
      by (auto simp: image_iff)
    moreover have "distinct (map id' (filter (\<lambda>tab. id' tab \<noteq> tabId) (tabs s)))"
      using d by (rule distinct_map_filter)
    moreover have "[] \<notin> set (map id' (filter (\<lambda>tab. id' tab \<noteq> tabId) (tabs s)))"
      using ne by auto
    ultimately show ?thesis
      unfolding store_invariant_ids c by simp
  qed
qed

lemma addNewTab_invariant:
  assumes "store_invariant s" and "String_nat n \<notin> set (map id' (tabs s))"
  shows "store_invariant (addNewTab n s)"
  using assms String_nat_nonempty [of n]
  unfolding store_invariant_ids by (auto simp: addNewTab_def Let_def)

lemma finishEditingTitle_invariant:
  assumes "store_invariant s"
  shows "store_invariant (finishEditingTitle s)"
proof (rule store_invariant_same_ids [OF assms])
  show "map id' (tabs (finishEditingTitle s)) = map id' (tabs s)"
    by (simp add: finishEditingTitle_def Let_def map_ids split: option.splits)
  show "activeTabId (finishEditingTitle s) = activeTabId s"
    by (simp add: finishEditingTitle_def Let_def split: option.splits)
qed

lemma updateActiveTabContent_invariant:
  assumes "store_invariant s"
  shows "store_invariant (updateActiveTabContent u s)"
proof (rule store_invariant_same_ids [OF assms])
  show "map id' (tabs (updateActiveTabContent u s)) = map id' (tabs s)"
    by (simp add: updateActiveTabContent_def map_ids)
  show "activeTabId (updateActiveTabContent u s) = activeTabId s"
    by (simp add: updateActiveTabContent_def)
qed

lemma handleTabClick_invariant:
  assumes "store_invariant s" and "tabId \<in> set (map id' (tabs s))"
  shows "store_invariant (handleTabClick tabId s)"
  using assms unfolding store_invariant_ids
  by (auto simp: handleTabClick_def startEditingTitle_def Let_def split: option.splits)

lemma activeTab_resolves:
  assumes "store_invariant s"
  shows "\<exists>t. activeTab s = Some t \<and> t \<in> set (tabs s) \<and> activeTabId s = Some (id' t)"
proof -
  from assms obtain a where "a \<in> set (tabs s)" "activeTabId s = Some (id' a)"
    unfolding store_invariant_ids by auto
  then have "find (\<lambda>tab. Some (id' tab) = activeTabId s) (tabs s) \<noteq> None"
    by (auto simp: find_None_iff)
  then obtain t where f: "find (\<lambda>tab. Some (id' tab) = activeTabId s) (tabs s) = Some t"
    by auto
  then have "t \<in> set (tabs s) \<and> Some (id' t) = activeTabId s"
    by (auto simp: find_Some_iff)
  with f show ?thesis by (auto simp: activeTab_def)
qed

lemma initial_app_invariant:
  assumes "distinct (map id' (initial_tabs parse cookie))"
    and "[] \<notin> set (map id' (initial_tabs parse cookie))"
    and "initial_activeTabId cookie \<in> Some ` set (map id' (initial_tabs parse cookie))"
  shows "store_invariant (initial_app parse cookie now)"
  using assms unfolding store_invariant_ids
  by (simp add: initial_app_def sync_activeTabRef_def)

lemma initial_app_default:
  assumes "find (\<lambda>row. startsWith row ''tabs='') cookie = None"
    and "find (\<lambda>row. startsWith row ''activeTab='') cookie = None"
  shows "store_invariant (initial_app parse cookie now)"
  by (rule initial_app_invariant)
     (simp_all add: assms initial_tabs_def initial_activeTabId_def default_tabs_def)

text \<open>
  Claim C6, as stated, fails. The two initialisers read their cookies independently:
  with a \<open>tabs\<close> cookie that does not parse, the tabs fall back to the default tab with id
  \<open>1\<close> while the saved active id is restored, and no tab has that id. The operations do
  not keep the active id among the ids either. After two tabs were created in the same
  millisecond and the first tab was closed, both tabs have the active id; closing one
  removes both, and the active id is the id of no tab (line 74 finds no tab at all).
  Selecting an id that no tab has makes it the active id. With tabs restored with the
  ids \<open>\<close> and \<open>a\<close> and \<open>a\<close> active, closing \<open>a\<close> leaves the active id undefined.
\<close>

theorem active_id_can_dangle:
  "tabs (initial_app (\<lambda>v. None) [''tabs=%5B'', ''activeTab=1730000000123''] 0)
     = [\<lparr>id' = ''1'', title = ''Untitled 1'', content = []\<rparr>]
   \<and> activeTabId (initial_app (\<lambda>v. None) [''tabs=%5B'', ''activeTab=1730000000123''] 0)
     = Some ''1730000000123''
   \<and> find (\<lambda>tab. Some (id' tab)
               = activeTabId (initial_app (\<lambda>v. None) [''tabs=%5B'', ''activeTab=1730000000123''] 0))
        (tabs (initial_app (\<lambda>v. None) [''tabs=%5B'', ''activeTab=1730000000123''] 0))
     = None
   \<and> map id' (tabs (closeTab ''1'' (addNewTab 5 (addNewTab 5 (initial_app (\<lambda>v. None) [[]] 0)))))
     = [''5'', ''5'']
   \<and> activeTabId (closeTab ''1'' (addNewTab 5 (addNewTab 5 (initial_app (\<lambda>v. None) [[]] 0))))
     = Some ''5''
   \<and> tabs (closeTab ''5''
        (closeTab ''1'' (addNewTab 5 (addNewTab 5 (initial_app (\<lambda>v. None) [[]] 0)))))
     = []
   \<and> activeTabId (closeTab ''5''
        (closeTab ''1'' (addNewTab 5 (addNewTab 5 (initial_app (\<lambda>v. None) [[]] 0)))))
     = Some ''5''
   \<and> activeTab (closeTab ''5''
        (closeTab ''1'' (addNewTab 5 (addNewTab 5 (initial_app (\<lambda>v. None) [[]] 0)))))
     = None
   \<and> activeTabId (handleTabClick ''9'' (initial_app (\<lambda>v. None) [[]] 0)) = Some ''9''
   \<and> map id' (tabs (handleTabClick ''9'' (initial_app (\<lambda>v. None) [[]] 0))) = [''1'']
   \<and> activeTabId
        (initial_app
          (\<lambda>v. Some [\<lparr>id' = [], title = ''x'', content = []\<rparr>,
                      \<lparr>id' = ''a'', title = ''y'', content = []\<rparr>])
          [''tabs=v'', ''activeTab=a''] 0)
     = Some ''a''
   \<and> activeTabId (closeTab ''a''
        (initial_app
          (\<lambda>v. Some [\<lparr>id' = [], title = ''x'', content = []\<rparr>,
                      \<lparr>id' = ''a'', title = ''y'', content = []\<rparr>])
          [''tabs=v'', ''activeTab=a''] 0))
     = None"
  by code_simp

text \<open>
  Claim C6, amended. Call a state well-formed when the ids of its tabs are distinct and
  non-empty and the active id is the id of one of its tabs. The initial state is
  well-formed when neither cookie is present, and whenever the restored tabs and the
  restored active id are. In a well-formed state line 74 resolves the active tab to the
  tab with the active id, and the state stays well-formed under \<open>addNewTab\<close> with an id
  that no tab has, under \<open>closeTab\<close>, under renaming (\<open>startEditingTitle\<close>,
  \<open>handleTitleChange\<close>, \<open>finishEditingTitle\<close>), under \<open>handleTabClick\<close> on the id of a tab,
  under \<open>updateActiveTabContent\<close>, under the effect of lines 67 to 69 and under the
  utterance handler.
\<close>

theorem store_invariant_maintained:
  "(find (\<lambda>row. startsWith row ''tabs='') cookie = None \<and>
    find (\<lambda>row. startsWith row ''activeTab='') cookie = None \<longrightarrow>
      store_invariant (initial_app parse cookie t0)) \<and>
   (distinct (map id' (initial_tabs parse cookie)) \<and>
    [] \<notin> set (map id' (initial_tabs parse cookie)) \<and>
    initial_activeTabId cookie \<in> Some ` set (map id' (initial_tabs parse cookie)) \<longrightarrow>
      store_invariant (initial_app parse cookie t0)) \<and>
   (store_invariant s \<longrightarrow>
      (\<exists>t. activeTab s = Some t \<and> t \<in> set (tabs s) \<and> activeTabId s = Some (id' t)) \<and>
      (String_nat n \<notin> set (map id' (tabs s)) \<longrightarrow> store_invariant (addNewTab n s)) \<and>
      store_invariant (closeTab tabId s) \<and>
      store_invariant (startEditingTitle tabId currentTitle s) \<and>
      store_invariant (handleTitleChange v s) \<and>
      store_invariant (finishEditingTitle s) \<and>
      (tabId \<in> set (map id' (tabs s)) \<longrightarrow> store_invariant (handleTabClick tabId s)) \<and>
      store_invariant (updateActiveTabContent u s) \<and>
      store_invariant (sync_activeTabRef s) \<and>
      (\<forall>s'. recognition_onresult captured now transcript s = Inr s' \<longrightarrow> store_invariant s'))"
proof -
  have "store_invariant (startEditingTitle tabId currentTitle s)"
       "store_invariant (handleTitleChange v s)"
       "store_invariant (sync_activeTabRef s)" if "store_invariant s"
    using that
    by (simp_all add: store_invariant_def startEditingTitle_def handleTitleChange_def
        sync_activeTabRef_def)
  moreover have "store_invariant s'"
    if "store_invariant s" "recognition_onresult captured now transcript s = Inr s'" for s'
    using that(1) recognition_onresult_ids [OF that(2)] by (rule store_invariant_same_ids)
  ultimately show ?thesis
    using initial_app_default [of cookie parse t0] initial_app_invariant [of parse cookie t0]
      activeTab_resolves [of s] addNewTab_invariant [of s n] closeTab_invariant [of s tabId]
      finishEditingTitle_invariant [of s] handleTabClick_invariant [of s tabId]
      updateActiveTabContent_invariant [of s u]
    by blast
qed

theorem store_invariant_maintained_witness:
  "find (\<lambda>row. startsWith row ''tabs='') [[]] = None
   \<and> find (\<lambda>row. startsWith row ''activeTab='') [[]] = None
   \<and> store_invariant (initial_app (\<lambda>v. None) [[]] 0)
   \<and> String_nat 1730000000123 \<notin> set (map id' (tabs (initial_app (\<lambda>v. None) [[]] 0)))
   \<and> store_invariant (addNewTab 1730000000123 (initial_app (\<lambda>v. None) [[]] 0))
   \<and> ''1'' \<in> set (map id' (tabs (addNewTab 1730000000123 (initial_app (\<lambda>v. None) [[]] 0))))
   \<and> store_invariant
       (handleTabClick ''1'' (addNewTab 1730000000123 (initial_app (\<lambda>v. None) [[]] 0)))
   \<and> store_invariant
       (closeTab ''1''
         (handleTabClick ''1'' (addNewTab 1730000000123 (initial_app (\<lambda>v. None) [[]] 0))))"
proof -
  let ?s0 = "initial_app (\<lambda>v. None) [[]] 0"
  let ?s1 = "addNewTab 1730000000123 ?s0"
  let ?s2 = "handleTabClick ''1'' ?s1"
  have c1: "find (\<lambda>row. startsWith row ''tabs='') [[]] = None"
    and c2: "find (\<lambda>row. startsWith row ''activeTab='') [[]] = None"
    by (simp_all add: startsWith_def)
  have i0: "store_invariant ?s0"
    using store_invariant_maintained [of "[[]]" "\<lambda>v. None" 0] c1 c2 by blast
  have n: "String_nat 1730000000123 = ''1730000000123''"
    by (simp add: String_nat.simps)
  have t0: "tabs ?s0 = [\<lparr>id' = ''1'', title = ''Untitled 1'', content = []\<rparr>]"
    by (simp add: initial_app_def sync_activeTabRef_def initial_tabs_def default_tabs_def
        startsWith_def)
  have f: "String_nat 1730000000123 \<notin> set (map id' (tabs ?s0))"
    by (simp add: n t0)
  have i1: "store_invariant ?s1"
    using store_invariant_maintained [of _ _ _ ?s0 1730000000123] i0 f by blast
  have m: "''1'' \<in> set (map id' (tabs ?s1))"
    by (simp add: addNewTab_def Let_def t0)
  have i2: "store_invariant ?s2"
    using store_invariant_maintained [of _ _ _ ?s1 _ "''1''"] i1 m by blast
  have i3: "store_invariant (closeTab ''1'' ?s2)"
    using store_invariant_maintained [of _ _ _ ?s2 _ "''1''"] i2 by blast
  from c1 c2 i0 f i1 m i2 i3 show ?thesis by blast
qed

section \<open>The utterance and the active tab\<close>

lemma map_at_position:
  assumes "distinct (map id' (before @ b # after))"
    and "\<And>t. id' t \<noteq> id' b \<Longrightarrow> g t = t"
  shows "map g (before @ b # after) = before @ g b # after"
proof -
  note d = distinct_ids_split [OF assms(1)]
  have "map g before = before"
    using d(1) assms(2) by (simp add: map_idI)
  moreover have "map g after = after"
    using d(2) assms(2) by (simp add: map_idI)
  ultimately show ?thesis by simp
qed

text \<open>
  The id of the active tab is read from \<open>activeTabRef\<close> when the event is handled. Let \<open>s\<close>
  be any state with distinct tab ids, whatever its active id and \<open>activeTabRef\<close> are, and
  let \<open>b\<close> be the tab between \<open>before\<close> and \<open>after\<close>. After \<open>b\<close> is selected and the effect of
  lines 67 to 69 has run, \<open>activeTabRef\<close> holds the id of \<open>b\<close>, and an utterance handled
  by a handler whose \<open>tabs\<close> hold a tab with that id, for a phrase whose lookup does not
  hit \<open>Object.prototype\<close>, replaces the content of \<open>b\<close> by a different, merged content
  and leaves \<open>before\<close>, \<open>after\<close>, and the id and title of \<open>b\<close> as they are.
\<close>

lemma utterance_goes_to_selected_tab:
  assumes "distinct (map id' (tabs s))" and "tabs s = before @ b # after"
    and "find (\<lambda>tab. Some (id' tab) = Some (id' b)) captured = Some currentTab"
    and "get_command (trim (toLowerCase transcript)) \<noteq> JObject"
    and "s' = sync_activeTabRef (handleTabClick (id' b) s)"
  shows "activeTabRef s' = Some (id' b) \<and>
    (\<exists>newContent.
       recognition_onresult captured now transcript s' =
         Inr (s'\<lparr>lastSpeechDetected := now, showNoSpeechDetected := False,
                 tabs := before @ b\<lparr>content := newContent\<rparr> # after\<rparr>) \<and>
       newContent \<noteq> content b \<and>
       (if truthy (get_command (trim (toLowerCase transcript)))
        then command_newContent (get_command (trim (toLowerCase transcript))) (content b)
               = Inr newContent
        else newContent = dictation_newContent (content b)
               (processedText (content currentTab) (trim (toLowerCase transcript)))))"
proof -
  have r: "activeTabRef s' = Some (id' b)" and t: "tabs s' = before @ b # after"
    using assms(2,5)
    by (simp_all add: sync_activeTabRef_def handleTabClick_def startEditingTitle_def Let_def
        split: option.splits)
  from onresult_found [OF assms(3,4), of "tabs s'"]
  obtain f where
    o: "onresult captured (Some (id' b)) transcript (tabs s') =
           Inr (map (\<lambda>tab. if Some (id' tab) = Some (id' b) then tab\<lparr>content := f (content tab)\<rparr>
                            else tab) (tabs s'))" and
    f: "\<forall>c. length c < length (f c) \<and>
           (if truthy (get_command (trim (toLowerCase transcript)))
            then command_newContent (get_command (trim (toLowerCase transcript))) c = Inr (f c)
            else f c = dictation_newContent c
                   (processedText (content currentTab) (trim (toLowerCase transcript))))"
    by blast
  have "map (\<lambda>tab. if Some (id' tab) = Some (id' b) then tab\<lparr>content := f (content tab)\<rparr>
                            else tab) (before @ b # after)
        = before @ (if Some (id' b) = Some (id' b) then b\<lparr>content := f (content b)\<rparr> else b) # after"
    by (rule map_at_position) (use assms(1,2) in simp_all)
  then have m: "onresult captured (Some (id' b)) transcript (tabs s') =
      Inr (before @ b\<lparr>content := f (content b)\<rparr> # after)"
    using o t by simp
  have "recognition_onresult captured now transcript s' =
         Inr (s'\<lparr>lastSpeechDetected := now, showNoSpeechDetected := False,
                 tabs := before @ b\<lparr>content := f (content b)\<rparr> # after\<rparr>)"
    using assms(3) m by (simp add: recognition_onresult_def r)
  moreover have "f (content b) \<noteq> content b"
    using f by (metis less_irrefl)
  ultimately show ?thesis using r f by blast
qed

text \<open>
  Line 125: when the tabs the handler closes over have no tab with the active id, the
  utterance changes nothing, and the time of the last utterance is not reset.
\<close>

lemma utterance_dropped_when_tab_not_captured:
  assumes "find (\<lambda>tab. Some (id' tab) = activeTabRef s) captured = None"
  shows "recognition_onresult captured now transcript s = Inr s"
  using assms by (simp add: recognition_onresult_def)

lemma state_after_new_tab:
  "sync_activeTabRef (addNewTab 1730000000123
      (toggleListening 0 (initial_app (\<lambda>v. None) [[]] 0)))
   = \<lparr>tabs = [\<lparr>id' = ''1'', title = ''Untitled 1'', content = []\<rparr>,
              \<lparr>id' = ''1730000000123'', title = ''Untitled 2'', content = []\<rparr>],
      activeTabId = Some ''1730000000123'',
      activeTabRef = Some ''1730000000123'',
      isEditingTitle = Some ''1730000000123'',
      editingTitleValue = ''Untitled 2'',
      isListening = True,
      lastSpeechDetected = 0,
      showNoSpeechDetected = False,
      hideTimeouts = []\<rparr>"
proof -
  have n: "String_nat 1730000000123 = ''1730000000123''"
    by (simp add: String_nat.simps)
  have t: "String_nat (Suc (Suc 0)) = ''2''"
    by (simp add: String_nat.simps)
  show ?thesis
    by (simp add: sync_activeTabRef_def addNewTab_def toggleListening_def initial_app_def
        initial_tabs_def initial_activeTabId_def default_tabs_def startsWith_def Let_def n t)
qed

text \<open>
  Claim C8. Listening starts at time 0 on the default document; the handler of the
  started recognition object has closed over the tabs of that moment. The user then
  adds a tab, which becomes the active one, and the effect of lines 67 to 69 puts its id
  into \<open>activeTabRef\<close>. The next utterance reads that id, finds no tab with it in the tabs
  the handler has closed over, and returns at line 125: the state after the utterance is
  the state before it, the new tab is still empty. A handler whose \<open>tabs\<close> are the ones
  of the state would have put \<open>Hello \<close> into the new tab.
\<close>

theorem utterance_after_new_tab_is_dropped:
  "activeTabRef
     (sync_activeTabRef (addNewTab 1730000000123
        (toggleListening 0 (initial_app (\<lambda>v. None) [[]] 0))))
     = Some ''1730000000123''
   \<and> tabs
     (sync_activeTabRef (addNewTab 1730000000123
        (toggleListening 0 (initial_app (\<lambda>v. None) [[]] 0))))
     = [\<lparr>id' = ''1'', title = ''Untitled 1'', content = []\<rparr>,
        \<lparr>id' = ''1730000000123'', title = ''Untitled 2'', content = []\<rparr>]
   \<and> deliver (tabs (toggleListening 0 (initial_app (\<lambda>v. None) [[]] 0)))
       [(5000, ''hello'')]
       (sync_activeTabRef (addNewTab 1730000000123
          (toggleListening 0 (initial_app (\<lambda>v. None) [[]] 0))))
     = Inr (sync_activeTabRef (addNewTab 1730000000123
          (toggleListening 0 (initial_app (\<lambda>v. None) [[]] 0))))
   \<and> map_sum fst tabs
       (deliver
          (tabs (sync_activeTabRef (addNewTab 1730000000123
             (toggleListening 0 (initial_app (\<lambda>v. None) [[]] 0)))))
          [(5000, ''hello'')]
          (sync_activeTabRef (addNewTab 1730000000123
             (toggleListening 0 (initial_app (\<lambda>v. None) [[]] 0)))))
     = Inr [\<lparr>id' = ''1'', title = ''Untitled 1'', content = []\<rparr>,
            \<lparr>id' = ''1730000000123'', title = ''Untitled 2'', content = ''Hello ''\<rparr>]"
  unfolding state_after_new_tab by code_simp

section \<open>The silence watchdog\<close>







end
